theory Spec2Isabelle
  imports Complex_Main "HOL-Library.Word"
begin

section \<open>Page-behaviour script of the site (scripts/scripts.js)\<close>

text \<open>
  The script is one initialisation routine made of independent controllers that read and
  write the document: class lists, attributes, inline style, focus. Each controller is
  embedded as functions on the part of the document it touches, with the mutation made
  explicit (the function returns the updated state).

  Two kinds of strings occur. Class names, attribute values, ids and hrefs are only ever
  compared for equality with each other or with literals of the script; they are HOL
  strings. Field values and the messages built from them go through \<open>trim\<close>,
  \<open>length\<close> and a regular expression, which work on UTF-16 code units; they are
  lists of 16-bit words.
\<close>

subsection \<open>Strings of the language\<close>

type_synonym code_unit = "16 word"
type_synonym js_string = "code_unit list"

definition js :: "string \<Rightarrow> js_string" where
  \<comment> \<open>a literal of the script (ASCII) as code units\<close>
  "js s = map of_char s"

subsection \<open>Class lists (DOMTokenList)\<close>

type_synonym classList = "string list"

definition classList_contains :: "string \<Rightarrow> classList \<Rightarrow> bool" where
  "classList_contains t cl = (t \<in> set cl)"

definition classList_add :: "string \<Rightarrow> classList \<Rightarrow> classList" where
  "classList_add t cl = (if t \<in> set cl then cl else cl @ [t])"

definition classList_remove :: "string \<Rightarrow> classList \<Rightarrow> classList" where
  "classList_remove t cl = filter (\<lambda>u. u \<noteq> t) cl"

definition classList_toggle :: "string \<Rightarrow> bool \<Rightarrow> classList \<Rightarrow> classList" where
  \<comment> \<open>\<open>toggle(token, force)\<close>: with the second argument it adds or removes, never flips\<close>
  "classList_toggle t force cl = (if force then classList_add t cl else classList_remove t cl)"

subsection \<open>Back-to-top button\<close>

record fab_state =
  fab_classList :: classList
  ticking :: bool

definition threshold :: real where
  "threshold = 480"

definition update :: "real \<Rightarrow> fab_state \<Rightarrow> fab_state" where
  \<comment> \<open>the argument is \<open>window.scrollY\<close> at the time of the call\<close>
  "update scrollY s =
     (let show = scrollY > threshold
      in s\<lparr>fab_classList := classList_toggle ''visible'' show (fab_classList s),
            ticking := False\<rparr>)"

subsection \<open>Scroll reveal\<close>

text \<open>
  The document is the list of its elements' class lists, in document order; an element is
  named by its position. \<open>observer\<close> is \<open>None\<close> as long as no
  \<open>IntersectionObserver\<close> has been constructed, and otherwise holds the positions it
  observes.
\<close>

record reveal_state =
  elements :: "classList list"
  observer :: "nat list option"

definition querySelectorAll_class :: "string \<Rightarrow> classList list \<Rightarrow> nat list" where
  "querySelectorAll_class c els = filter (\<lambda>i. classList_contains c (els ! i)) [0..<length els]"

definition add_visible :: "classList list \<Rightarrow> nat \<Rightarrow> classList list" where
  \<comment> \<open>\<open>el.classList.add('visible')\<close> on the element at a position of the document\<close>
  "add_visible els i = (if i < length els then els[i := classList_add ''visible'' (els ! i)] else els)"

definition scroll_reveal :: "bool \<Rightarrow> bool \<Rightarrow> classList list \<Rightarrow> reveal_state" where
  \<comment> \<open>arguments: the \<open>prefers-reduced-motion: reduce\<close> media query matches;
      \<open>'IntersectionObserver' in window\<close>; the document\<close>
  "scroll_reveal reduceMotion hasIntersectionObserver els =
     (if \<not> reduceMotion \<and> hasIntersectionObserver
      then (let targets = querySelectorAll_class ''reveal'' els
            in \<lparr>elements = els, observer = Some targets\<rparr>)
      else \<lparr>elements = foldl add_visible els (querySelectorAll_class ''reveal'' els),
             observer = None\<rparr>)"

fun reveal_entry :: "reveal_state \<Rightarrow> nat \<times> bool \<Rightarrow> reveal_state" where
  \<comment> \<open>one entry of the observer's callback: its target and \<open>isIntersecting\<close>\<close>
  "reveal_entry st (target, isIntersecting) =
     (if isIntersecting
      then st\<lparr>elements := add_visible (elements st) target,
              observer := map_option (filter (\<lambda>i. i \<noteq> target)) (observer st)\<rparr>
      else st)"

definition reveal_callback :: "(nat \<times> bool) list \<Rightarrow> reveal_state \<Rightarrow> reveal_state" where
  \<comment> \<open>the callback exists only where the observer was constructed\<close>
  "reveal_callback entries st =
     (case observer st of None \<Rightarrow> st | Some _ \<Rightarrow> foldl reveal_entry st entries)"

subsection \<open>Panel controllers: mobile navigation, sidebar, sections overlay\<close>

text \<open>
  The three controllers own different elements (\<open>#site-nav\<close>, \<open>#page-sidebar\<close> with the
  backdrop the script creates, and the overlay the script creates) and share one inline
  style, \<open>document.body.style.overflow\<close>. The page state holds what they read and write.
\<close>

datatype focus_target =
  NavFirstLink | NavToggle | SidebarFirstLink | ToggleBtn | SheetFirstLink | Pill

record page =
  body_overflow :: string
  activeElement :: "focus_target option"
  siteNav_classList :: classList
  siteNav_has_link :: bool
  navToggle_aria_expanded :: string
  sidebar_classList :: classList
  sidebar_has_link :: bool
  backdrop_classList :: classList
  toggleBtn_aria_expanded :: string
  overlay_classList :: classList
  sheet_has_link :: bool
  pill_aria_expanded :: string

definition String_of_bool :: "bool \<Rightarrow> string" where
  "String_of_bool b = (if b then ''true'' else ''false'')"

definition setOpen :: "bool \<Rightarrow> page \<Rightarrow> page" where
  "setOpen opn p =
     (let p1 = p\<lparr>siteNav_classList := classList_toggle ''open'' opn (siteNav_classList p)\<rparr>;
          p2 = p1\<lparr>navToggle_aria_expanded := String_of_bool opn\<rparr>;
          p3 = p2\<lparr>body_overflow := (if opn then ''hidden'' else '''')\<rparr>
      in if opn \<and> siteNav_has_link p3 then p3\<lparr>activeElement := Some NavFirstLink\<rparr> else p3)"

datatype nav_event =
  ToggleClick
  | NavClick bool  \<comment> \<open>the target is an \<open>HTMLElement\<close> with tag name \<open>A\<close>\<close>
  | DocumentClick bool bool  \<comment> \<open>\<open>siteNav.contains(e.target)\<close>; \<open>e.target === navToggle\<close>\<close>
  | NavKeyDown string  \<comment> \<open>\<open>e.key\<close>\<close>
  | NavResize bool  \<comment> \<open>\<open>(min-width: 901px)\<close> matches\<close>

fun nav_handle :: "nav_event \<Rightarrow> page \<Rightarrow> page" where
  "nav_handle ToggleClick p = setOpen (\<not> classList_contains ''open'' (siteNav_classList p)) p"
| "nav_handle (NavClick is_link) p = (if is_link then setOpen False p else p)"
| "nav_handle (DocumentClick inside is_toggle) p =
     (if \<not> inside \<and> \<not> is_toggle \<and> classList_contains ''open'' (siteNav_classList p)
      then setOpen False p else p)"
| "nav_handle (NavKeyDown key) p =
     (if key = ''Escape'' \<and> classList_contains ''open'' (siteNav_classList p)
      then (setOpen False p)\<lparr>activeElement := Some NavToggle\<rparr> else p)"
| "nav_handle (NavResize wide) p =
     (if wide \<and> classList_contains ''open'' (siteNav_classList p) then setOpen False p else p)"

definition openSidebar :: "page \<Rightarrow> page" where
  "openSidebar p =
     (let p1 = p\<lparr>sidebar_classList := classList_add ''open'' (sidebar_classList p)\<rparr>;
          p2 = p1\<lparr>backdrop_classList := classList_add ''open'' (backdrop_classList p1)\<rparr>;
          p3 = p2\<lparr>toggleBtn_aria_expanded := ''true''\<rparr>;
          p4 = p3\<lparr>body_overflow := ''hidden''\<rparr>
      in if sidebar_has_link p4 then p4\<lparr>activeElement := Some SidebarFirstLink\<rparr> else p4)"

definition closeSidebar :: "page \<Rightarrow> page" where
  "closeSidebar p =
     (let p1 = p\<lparr>sidebar_classList := classList_remove ''open'' (sidebar_classList p)\<rparr>;
          p2 = p1\<lparr>backdrop_classList := classList_remove ''open'' (backdrop_classList p1)\<rparr>;
          p3 = p2\<lparr>toggleBtn_aria_expanded := ''false''\<rparr>;
          p4 = p3\<lparr>body_overflow := ''''\<rparr>
      in p4\<lparr>activeElement := Some ToggleBtn\<rparr>)"

datatype sidebar_event =
  ToggleBtnClick | CloseBtnClick | BackdropClick
  | SidebarKeyDown string  \<comment> \<open>\<open>e.key\<close>\<close>
  | SidebarLinkClick

fun sidebar_handle :: "sidebar_event \<Rightarrow> page \<Rightarrow> page" where
  "sidebar_handle ToggleBtnClick p = openSidebar p"
| "sidebar_handle CloseBtnClick p = closeSidebar p"
| "sidebar_handle BackdropClick p = closeSidebar p"
| "sidebar_handle (SidebarKeyDown key) p =
     (if key = ''Escape'' \<and> classList_contains ''open'' (sidebar_classList p)
      then closeSidebar p else p)"
| "sidebar_handle SidebarLinkClick p = closeSidebar p"

definition openOverlay :: "page \<Rightarrow> page" where
  "openOverlay p =
     (let p1 = p\<lparr>overlay_classList := classList_add ''open'' (overlay_classList p)\<rparr>;
          p2 = p1\<lparr>pill_aria_expanded := ''true''\<rparr>;
          p3 = (if sheet_has_link p2 then p2\<lparr>activeElement := Some SheetFirstLink\<rparr> else p2)
      in p3\<lparr>body_overflow := ''hidden''\<rparr>)"

definition closeOverlay :: "page \<Rightarrow> page" where
  "closeOverlay p =
     (let p1 = p\<lparr>overlay_classList := classList_remove ''open'' (overlay_classList p)\<rparr>;
          p2 = p1\<lparr>pill_aria_expanded := ''false''\<rparr>;
          p3 = p2\<lparr>activeElement := Some Pill\<rparr>
      in p3\<lparr>body_overflow := ''''\<rparr>)"

datatype overlay_event =
  PillClick | OverlayCloseBtnClick
  | OverlayClick bool  \<comment> \<open>\<open>e.target === overlay\<close>\<close>
  | OverlayKeyDown string  \<comment> \<open>\<open>e.key\<close>\<close>
  | SheetClick bool  \<comment> \<open>the target is an \<open>HTMLElement\<close> with tag name \<open>A\<close>\<close>

fun overlay_handle :: "overlay_event \<Rightarrow> page \<Rightarrow> page" where
  "overlay_handle PillClick p =
     (if classList_contains ''open'' (overlay_classList p) then closeOverlay p else openOverlay p)"
| "overlay_handle OverlayCloseBtnClick p = closeOverlay p"
| "overlay_handle (OverlayClick on_overlay) p = (if on_overlay then closeOverlay p else p)"
| "overlay_handle (OverlayKeyDown key) p =
     (if key = ''Escape'' \<and> classList_contains ''open'' (overlay_classList p)
      then closeOverlay p else p)"
| "overlay_handle (SheetClick is_link) p = (if is_link then closeOverlay p else p)"

text \<open>A controller's handlers run one after the other, each to completion.\<close>

definition nav_run :: "nav_event list \<Rightarrow> page \<Rightarrow> page" where
  "nav_run es p = foldl (\<lambda>q e. nav_handle e q) p es"

definition sidebar_run :: "sidebar_event list \<Rightarrow> page \<Rightarrow> page" where
  "sidebar_run es p = foldl (\<lambda>q e. sidebar_handle e q) p es"

definition overlay_run :: "overlay_event list \<Rightarrow> page \<Rightarrow> page" where
  "overlay_run es p = foldl (\<lambda>q e. overlay_handle e q) p es"

text \<open>The open marker of a panel and the scroll lock agree.\<close>

definition scroll_locked :: "page \<Rightarrow> bool" where
  "scroll_locked p = (body_overflow p = ''hidden'')"

definition nav_in_sync :: "page \<Rightarrow> bool" where
  "nav_in_sync p = (classList_contains ''open'' (siteNav_classList p) = scroll_locked p)"

definition sidebar_in_sync :: "page \<Rightarrow> bool" where
  "sidebar_in_sync p = (classList_contains ''open'' (sidebar_classList p) = scroll_locked p)"

definition overlay_in_sync :: "page \<Rightarrow> bool" where
  "overlay_in_sync p = (classList_contains ''open'' (overlay_classList p) = scroll_locked p)"

definition page_at_load :: page where
  \<comment> \<open>a page as served: every panel closed, no inline overflow style\<close>
  "page_at_load =
     \<lparr>body_overflow = '''', activeElement = None,
      siteNav_classList = [''site-nav''], siteNav_has_link = True,
      navToggle_aria_expanded = ''false'',
      sidebar_classList = [''sidebar''], sidebar_has_link = True,
      backdrop_classList = [''sidebar-backdrop''], toggleBtn_aria_expanded = ''false'',
      overlay_classList = [''sections-overlay''], sheet_has_link = True,
      pill_aria_expanded = ''false''\<rparr>"

subsection \<open>Form validation: strings, the e-mail pattern, numbers\<close>

definition line_terminator :: "code_unit \<Rightarrow> bool" where
  \<comment> \<open>LF, CR, LINE SEPARATOR, PARAGRAPH SEPARATOR\<close>
  "line_terminator c = (c = 0x000A \<or> c = 0x000D \<or> c = 0x2028 \<or> c = 0x2029)"

definition white_space :: "code_unit \<Rightarrow> bool" where
  \<comment> \<open>TAB, VT, FF, ZWNBSP and the space separators (category Zs)\<close>
  "white_space c =
     (c = 0x0009 \<or> c = 0x000B \<or> c = 0x000C \<or> c = 0xFEFF
      \<or> c = 0x0020 \<or> c = 0x00A0 \<or> c = 0x1680 \<or> (0x2000 \<le> c \<and> c \<le> 0x200A)
      \<or> c = 0x202F \<or> c = 0x205F \<or> c = 0x3000)"

definition blank_char :: "code_unit \<Rightarrow> bool" where
  \<comment> \<open>what \<open>trim\<close> strips, and what may surround a numeric string\<close>
  "blank_char c = (white_space c \<or> line_terminator c)"

definition trim :: "js_string \<Rightarrow> js_string" where
  "trim s = rev (dropWhile blank_char (rev (dropWhile blank_char s)))"

text \<open>
  Regular expressions, as far as the script's one pattern needs them: a sequence of pieces,
  each one atom or one atom repeated one or more times. \<open>RegExp.prototype.test\<close> without
  flags asks for a match starting anywhere and ending anywhere.
\<close>

datatype atom =
  AnyChar  \<comment> \<open>\<open>.\<close>: any code unit but a line terminator (no \<open>s\<close> flag)\<close>
  | Literal code_unit

datatype piece = Once atom | OneOrMore atom

fun atom_matches :: "atom \<Rightarrow> code_unit \<Rightarrow> bool" where
  "atom_matches AnyChar c = (\<not> line_terminator c)"
| "atom_matches (Literal d) c = (c = d)"

fun match_here :: "piece list \<Rightarrow> js_string \<Rightarrow> bool" where
  \<comment> \<open>some prefix of the string matches the pieces\<close>
  "match_here [] s = True"
| "match_here (Once a # ps) [] = False"
| "match_here (Once a # ps) (c # s) = (atom_matches a c \<and> match_here ps s)"
| "match_here (OneOrMore a # ps) [] = False"
| "match_here (OneOrMore a # ps) (c # s) =
     (atom_matches a c \<and> (match_here (OneOrMore a # ps) s \<or> match_here ps s))"

fun regexp_test :: "piece list \<Rightarrow> js_string \<Rightarrow> bool" where
  "regexp_test ps [] = match_here ps []"
| "regexp_test ps (c # s) = (match_here ps (c # s) \<or> regexp_test ps s)"

definition email_regexp :: "piece list" where
  \<comment> \<open>\<open>/.+@.+\..+/\<close>\<close>
  "email_regexp =
     [OneOrMore AnyChar, Once (Literal 0x40), OneOrMore AnyChar, Once (Literal 0x2E),
      OneOrMore AnyChar]"

text \<open>
  \<open>Number(min)\<close> is compared with a string length. For a string that is, between optional
  blanks, empty or a run of decimal digits, the value is written out: zero, or the digits
  read in base ten. (A length is an integer below \<open>2^53\<close>, so rounding the digits' value
  to a double does not change the comparison.) Every other string (signs, fractions,
  exponents, other bases, \<open>Infinity\<close>, text) is converted by the platform: \<open>conv\<close>, a
  parameter, stands for that conversion, and may answer \<open>NaN\<close>.
\<close>

datatype js_number = NaN | Finite real | PosInfinity | NegInfinity

definition is_digit :: "code_unit \<Rightarrow> bool" where
  "is_digit c = (0x30 \<le> c \<and> c \<le> 0x39)"

definition decimal_value :: "js_string \<Rightarrow> nat" where
  "decimal_value s = foldl (\<lambda>n c. 10 * n + unat (c - 0x30)) 0 s"

definition Number :: "(js_string \<Rightarrow> js_number) \<Rightarrow> js_string \<Rightarrow> js_number" where
  "Number conv s =
     (let t = trim s
      in if t = [] then Finite 0
         else if list_all is_digit t then Finite (real (decimal_value t))
         else conv s)"

fun length_less :: "nat \<Rightarrow> js_number \<Rightarrow> bool" where
  \<comment> \<open>\<open>n < x\<close> for a length \<open>n\<close>; a comparison with \<open>NaN\<close> is false\<close>
  "length_less n NaN = False"
| "length_less n (Finite x) = (real n < x)"
| "length_less n PosInfinity = True"
| "length_less n NegInfinity = False"

subsection \<open>Form validation: fields and their error displays\<close>

text \<open>
  A field is an \<open>input\<close> or \<open>textarea\<close> element of the form. \<open>following\<close> lists the
  elements that come after the field under the same parent, up to the next field or
  container: the first of them, if any, is the field's \<open>nextElementSibling\<close>, and a new
  error display is inserted in front of them. These are plain elements (an error display
  holds text only), so the model covers the pages whose elements of class \<open>field-error\<close>
  are neither fields nor containers of fields.
\<close>

record element =
  el_classList :: classList
  textContent :: js_string

datatype tag = INPUT | TEXTAREA

record field =
  tagName :: tag
  input_type :: string  \<comment> \<open>the \<open>type\<close> property: a keyword such as \<open>text\<close>, \<open>email\<close>\<close>
  field_value :: js_string
  required :: bool
  minlength :: "js_string option"  \<comment> \<open>\<open>getAttribute('minlength')\<close>\<close>
  field_classList :: classList
  aria_invalid :: "string option"
  following :: "element list"

definition nextElementSibling :: "field \<Rightarrow> element option" where
  "nextElementSibling f = (case following f of [] \<Rightarrow> None | el # _ \<Rightarrow> Some el)"

definition createElement_div :: element where
  "createElement_div = \<lparr>el_classList = [], textContent = []\<rparr>"

definition ensureErrorEl :: "field \<Rightarrow> element \<times> element list" where
  \<comment> \<open>the error display, and the elements that follow it\<close>
  "ensureErrorEl f =
     (case nextElementSibling f of
        Some el \<Rightarrow>
          if classList_contains ''field-error'' (el_classList el) then (el, tl (following f))
          else (createElement_div\<lparr>el_classList := [''field-error'']\<rparr>, following f)
      | None \<Rightarrow> (createElement_div\<lparr>el_classList := [''field-error'']\<rparr>, following f))"

definition showError :: "field \<Rightarrow> js_string \<Rightarrow> field" where
  "showError f msg =
     (let (err, rest) = ensureErrorEl f;
          err1 = err\<lparr>textContent := msg\<rparr>;
          err2 = err1\<lparr>el_classList := classList_toggle ''active'' (msg \<noteq> []) (el_classList err1)\<rparr>;
          f1 = f\<lparr>following := err2 # rest\<rparr>;
          f2 = f1\<lparr>field_classList := classList_toggle ''error'' (msg \<noteq> []) (field_classList f1)\<rparr>
      in f2\<lparr>aria_invalid := Some (if msg \<noteq> [] then ''true'' else ''false'')\<rparr>)"

definition email :: "field \<Rightarrow> js_string" where
  "email f =
     (if field_value f = [] then js ''Email is required.''
      else if regexp_test email_regexp (field_value f) then [] else js ''Enter a valid email.'')"

definition text_validator :: "field \<Rightarrow> js_string" where
  "text_validator f =
     (if required f \<and> trim (field_value f) = [] then js ''This field is required.'' else [])"

definition textarea :: "(js_string \<Rightarrow> js_number) \<Rightarrow> field \<Rightarrow> js_string" where
  "textarea conv f =
     (if required f \<and> trim (field_value f) = [] then js ''Message is required.''
      else case minlength f of
             None \<Rightarrow> []
           | Some m \<Rightarrow>
               if m \<noteq> [] \<and> length_less (length (trim (field_value f))) (Number conv m)
               then js ''Please write at least '' @ m @ js '' characters.''
               else [])"

definition validators ::
  "(js_string \<Rightarrow> js_number) \<Rightarrow> string \<Rightarrow> (field \<Rightarrow> js_string) option" where
  \<comment> \<open>the object's own keys; no \<open>type\<close> keyword names a property it inherits\<close>
  "validators conv =
     [''email'' \<mapsto> email, ''text'' \<mapsto> text_validator, ''textarea'' \<mapsto> textarea conv]"

definition tagName_toLowerCase :: "tag \<Rightarrow> string" where
  "tagName_toLowerCase t = (case t of INPUT \<Rightarrow> ''input'' | TEXTAREA \<Rightarrow> ''textarea'')"

definition field_kind :: "field \<Rightarrow> string" where
  \<comment> \<open>the constant \<open>type\<close> of \<open>validate\<close>\<close>
  "field_kind f =
     (if tagName_toLowerCase (tagName f) = ''textarea'' then ''textarea''
      else if input_type f = [] then ''text'' else input_type f)"

definition message :: "(js_string \<Rightarrow> js_number) \<Rightarrow> field \<Rightarrow> js_string" where
  \<comment> \<open>the constant \<open>msg\<close> of \<open>validate\<close>\<close>
  "message conv f =
     (let fn = (case validators conv (field_kind f) of Some g \<Rightarrow> g | None \<Rightarrow> text_validator)
      in fn f)"

definition validate :: "(js_string \<Rightarrow> js_number) \<Rightarrow> field \<Rightarrow> field \<times> bool" where
  \<comment> \<open>the field after the pass, and the value returned\<close>
  "validate conv f = (let msg = message conv f in (showError f msg, msg = []))"

subsection \<open>Form validation: submit\<close>

text \<open>
  The form's descendants in document order: its fields, each followed by the elements of
  its \<open>following\<close>, and the other elements. \<open>fields\<close> is computed once, so the handler
  visits the fields of this list in order.
\<close>

datatype node = FieldNode field | OtherNode element

datatype node_ref =
  FieldRef nat  \<comment> \<open>the field at a position of the list\<close>
  | FollowingRef nat nat  \<comment> \<open>an element of the \<open>following\<close> of the field at a position\<close>
  | OtherRef nat  \<comment> \<open>the other element at a position of the list\<close>

fun first_with_class :: "string \<Rightarrow> element list \<Rightarrow> nat \<Rightarrow> nat option" where
  "first_with_class c [] j = None"
| "first_with_class c (el # els) j =
     (if classList_contains c (el_classList el) then Some j else first_with_class c els (Suc j))"

fun querySelector_class :: "string \<Rightarrow> node list \<Rightarrow> nat \<Rightarrow> node_ref option" where
  \<comment> \<open>\<open>form.querySelector('.c')\<close>: the first descendant of the class, counting positions
      from the third argument\<close>
  "querySelector_class c [] i = None"
| "querySelector_class c (OtherNode el # ns) i =
     (if classList_contains c (el_classList el) then Some (OtherRef i)
      else querySelector_class c ns (Suc i))"
| "querySelector_class c (FieldNode f # ns) i =
     (if classList_contains c (field_classList f) then Some (FieldRef i)
      else case first_with_class c (following f) 0 of
             Some j \<Rightarrow> Some (FollowingRef i j)
           | None \<Rightarrow> querySelector_class c ns (Suc i))"

fun validate_each ::
  "(js_string \<Rightarrow> js_number) \<Rightarrow> node list \<Rightarrow> bool \<Rightarrow> node list \<times> bool" where
  \<comment> \<open>the \<open>forEach\<close> of the submit handler, threading \<open>ok\<close>\<close>
  "validate_each conv [] ok = ([], ok)"
| "validate_each conv (OtherNode el # ns) ok =
     (let (ns', ok') = validate_each conv ns ok in (OtherNode el # ns', ok'))"
| "validate_each conv (FieldNode f # ns) ok =
     (let (f', valid) = validate conv f;
          (ns', ok') = validate_each conv ns (if \<not> valid then False else ok)
      in (FieldNode f' # ns', ok'))"

record submit_result =
  form_nodes :: "node list"
  defaultPrevented :: bool
  focus_called_on :: "node_ref option"

definition submit :: "(js_string \<Rightarrow> js_number) \<Rightarrow> node list \<Rightarrow> submit_result" where
  "submit conv ns =
     (let (ns', ok) = validate_each conv ns True
      in if \<not> ok
         then \<lparr>form_nodes = ns', defaultPrevented = True,
               focus_called_on = querySelector_class ''error'' ns' 0\<rparr>
         else \<lparr>form_nodes = ns', defaultPrevented = False, focus_called_on = None\<rparr>)"

subsection \<open>Scroll-spy\<close>

record nav_link =
  href :: string
  link_classList :: classList

record entry =
  isIntersecting :: bool
  boundingClientRect_top :: real
  target_id :: string  \<comment> \<open>\<open>entry.target.id\<close>\<close>

definition setActive :: "string \<Rightarrow> nav_link list \<Rightarrow> nav_link list" where
  "setActive ident navLinks =
     map (\<lambda>a. a\<lparr>link_classList :=
                  classList_toggle ''active'' (href a = ''#'' @ ident) (link_classList a)\<rparr>)
       navLinks"

definition visible_entries :: "entry list \<Rightarrow> entry list" where
  \<comment> \<open>\<open>entries.filter(...).sort(...)\<close>; the sort is stable\<close>
  "visible_entries entries = sort_key boundingClientRect_top (filter isIntersecting entries)"

definition spy :: "entry list \<Rightarrow> nav_link list \<Rightarrow> nav_link list" where
  \<comment> \<open>the observer's callback, on the entries of one notification\<close>
  "spy entries navLinks =
     (case visible_entries entries of
        [] \<Rightarrow> navLinks
      | e # _ \<Rightarrow> setActive (target_id e) navLinks)"

text \<open>
  What the observer reports. An \<open>IntersectionObserver\<close> records for every target the
  state it last reported (whether it intersects, and the index of the threshold reached)
  and queues an entry for a target only when the state it computes now differs from that
  record; a target never reported has no record, so the first computation reports it.
  The callback is called with the queued entries. \<open>observation\<close> is what the browser
  computes for one observed section, the targets being named by their ids.
\<close>

record observation =
  section_id :: string
  intersecting :: bool
  thresholdIndex :: nat
  rect_top :: real

definition entry_of :: "observation \<Rightarrow> entry" where
  "entry_of ob =
     \<lparr>isIntersecting = intersecting ob, boundingClientRect_top = rect_top ob,
      target_id = section_id ob\<rparr>"

definition notification ::
  "(string \<Rightarrow> (bool \<times> nat) option) \<Rightarrow> observation list \<Rightarrow> entry list" where
  \<comment> \<open>the entries of one callback: the record of the states last reported, and the
      sections as computed now\<close>
  "notification previous obs =
     map entry_of
       (filter (\<lambda>ob. previous (section_id ob) \<noteq> Some (intersecting ob, thresholdIndex ob)) obs)"

subsection \<open>Notions the properties are stated with\<close>

definition loose_email_shape :: "js_string \<Rightarrow> bool" where
  \<comment> \<open>The spec's words: the value \<open>matches a loose text@text.text shape\<close>. Somewhere in the
      value stand a text, \<open>@\<close>, a text, a dot and a text, each text a non-empty run of
      characters of one line.\<close>
  "loose_email_shape s =
     (\<exists>pre a b c post.
        s = pre @ a @ [0x40] @ b @ [0x2E] @ c @ post
        \<and> a \<noteq> [] \<and> b \<noteq> [] \<and> c \<noteq> []
        \<and> (\<forall>x \<in> set (a @ b @ c). \<not> line_terminator x))"

definition revalidate :: "(js_string \<Rightarrow> js_number) \<Rightarrow> node \<Rightarrow> node" where
  \<comment> \<open>a node after one validation pass on it, if it is a field\<close>
  "revalidate conv n =
     (case n of FieldNode f \<Rightarrow> FieldNode (fst (validate conv f)) | OtherNode el \<Rightarrow> OtherNode el)"

fun plain_elements :: "node \<Rightarrow> element list" where
  \<comment> \<open>the elements of a node that are not fields\<close>
  "plain_elements (FieldNode f) = following f"
| "plain_elements (OtherNode el) = [el]"

definition only_fields_carry :: "string \<Rightarrow> node list \<Rightarrow> bool" where
  \<comment> \<open>no element of the form other than a field has the class\<close>
  "only_fields_carry c ns =
     (\<forall>n \<in> set ns. \<forall>el \<in> set (plain_elements n). \<not> classList_contains c (el_classList el))"

subsection \<open>Example pages\<close>

definition example_email_field :: field where
  "example_email_field =
     \<lparr>tagName = INPUT, input_type = ''email'', field_value = js ''x@y.z'',
      required = True, minlength = None, field_classList = [], aria_invalid = None,
      following = []\<rparr>"

definition example_textarea :: field where
  "example_textarea =
     \<lparr>tagName = TEXTAREA, input_type = ''textarea'', field_value = js '' hello there '',
      required = True, minlength = Some (js ''10''), field_classList = [], aria_invalid = None,
      following = []\<rparr>"

definition name_field :: field where
  "name_field =
     \<lparr>tagName = INPUT, input_type = ''text'', field_value = js ''Ada'',
      required = True, minlength = None, field_classList = [], aria_invalid = None,
      following = []\<rparr>"

definition empty_message_field :: field where
  "empty_message_field =
     \<lparr>tagName = TEXTAREA, input_type = ''textarea'', field_value = [],
      required = True, minlength = Some (js ''10''), field_classList = [],
      aria_invalid = None, following = []\<rparr>"

definition plain_form :: "node list" where
  "plain_form =
     [OtherNode \<lparr>el_classList = [''form-group''], textContent = []\<rparr>,
      FieldNode name_field, FieldNode empty_message_field]"

definition banner_form :: "node list" where
  \<comment> \<open>the same fields below a notice that carries the class \<open>error\<close>\<close>
  "banner_form =
     [OtherNode \<lparr>el_classList = [''notice'', ''error''], textContent = js ''Check the form.''\<rparr>,
      FieldNode name_field, FieldNode empty_message_field]"

definition tail_banner_form :: "node list" where
  \<comment> \<open>the notice after the fields\<close>
  "tail_banner_form =
     [FieldNode name_field, FieldNode empty_message_field,
      OtherNode \<lparr>el_classList = [''notice'', ''error''], textContent = js ''Check the form.''\<rparr>]"

definition reported_before :: "string \<Rightarrow> (bool \<times> nat) option" where
  \<comment> \<open>an earlier notification reported \<open>intro\<close> intersecting and \<open>setup\<close> not\<close>
  "reported_before = [''intro'' \<mapsto> (True, 1), ''setup'' \<mapsto> (False, 0)]"

definition sections_now :: "observation list" where
  \<comment> \<open>after scrolling on: \<open>intro\<close> still intersects, \<open>setup\<close> below it now does too\<close>
  "sections_now =
     [\<lparr>section_id = ''intro'', intersecting = True, thresholdIndex = 1, rect_top = 200\<rparr>,
      \<lparr>section_id = ''setup'', intersecting = True, thresholdIndex = 1, rect_top = 350\<rparr>]"

definition two_links :: "nav_link list" where
  "two_links =
     [\<lparr>href = ''#intro'', link_classList = [''active'']\<rparr>,
      \<lparr>href = ''#setup'', link_classList = []\<rparr>]"

definition two_entries :: "entry list" where
  "two_entries =
     [\<lparr>isIntersecting = True, boundingClientRect_top = 310, target_id = ''intro''\<rparr>,
      \<lparr>isIntersecting = True, boundingClientRect_top = 42.5, target_id = ''setup''\<rparr>]"

section \<open>Properties\<close>

subsection \<open>Class lists\<close>

lemma contains_add [simp]: "classList_contains t (classList_add t cl)"
  by (simp add: classList_contains_def classList_add_def)

lemma contains_remove [simp]: "\<not> classList_contains t (classList_remove t cl)"
  by (simp add: classList_contains_def classList_remove_def)

lemma contains_toggle [simp]: "classList_contains t (classList_toggle t force cl) = force"
  by (simp add: classList_toggle_def)

lemma contains_add_other:
  "u \<noteq> t \<Longrightarrow> classList_contains u (classList_add t cl) = classList_contains u cl"
  by (auto simp: classList_contains_def classList_add_def)

lemma contains_remove_other:
  "u \<noteq> t \<Longrightarrow> classList_contains u (classList_remove t cl) = classList_contains u cl"
  by (auto simp: classList_contains_def classList_remove_def)

lemma contains_toggle_other:
  "u \<noteq> t \<Longrightarrow> classList_contains u (classList_toggle t force cl) = classList_contains u cl"
  by (simp add: classList_toggle_def contains_add_other contains_remove_other)

lemma classList_toggle_idem:
  "classList_toggle t b (classList_toggle t b cl) = classList_toggle t b cl"
  by (simp add: classList_toggle_def classList_add_def classList_remove_def)

subsection \<open>Back-to-top button\<close>

text \<open>
  C7. Whatever the button's classes were, after \<open>update\<close> it carries \<open>visible\<close> exactly
  when the scroll offset is strictly greater than 480: hidden at 479, visible at 481,
  hidden at 480 itself.
\<close>

theorem backtotop_visible_iff:
  "classList_contains ''visible'' (fab_classList (update y s)) = (480 < y)
   \<and> \<not> classList_contains ''visible'' (fab_classList (update 479 s))
   \<and> classList_contains ''visible'' (fab_classList (update 481 s))
   \<and> \<not> classList_contains ''visible'' (fab_classList (update 480 s))"
  by (simp add: update_def threshold_def)

subsection \<open>Scroll reveal\<close>

lemma length_add_visible [simp]: "length (add_visible els i) = length els"
  by (simp add: add_visible_def)

lemma length_foldl_add_visible [simp]: "length (foldl add_visible els is) = length els"
  by (induction "is" arbitrary: els) simp_all

lemma nth_add_visible:
  "j < length els \<Longrightarrow>
   add_visible els i ! j = (if j = i then classList_add ''visible'' (els ! j) else els ! j)"
  by (simp add: add_visible_def nth_list_update)

lemma add_visible_keeps:
  "classList_contains c (els ! j) \<Longrightarrow> j < length els \<Longrightarrow>
   classList_contains c (add_visible els i ! j)"
  by (auto simp: nth_add_visible classList_contains_def classList_add_def)

lemma foldl_add_visible_keeps:
  "classList_contains c (els ! j) \<Longrightarrow> j < length els \<Longrightarrow>
   classList_contains c (foldl add_visible els is ! j)"
  by (induction "is" arbitrary: els) (simp_all add: add_visible_keeps)

lemma foldl_add_visible_marks:
  "j \<in> set is \<Longrightarrow> j < length els \<Longrightarrow>
   classList_contains ''visible'' (foldl add_visible els is ! j)"
proof (induction "is" arbitrary: els)
  case Nil
  then show ?case by simp
next
  case (Cons i "is")
  show ?case
  proof (cases "j = i")
    case True
    with Cons.prems have "classList_contains ''visible'' (add_visible els i ! j)"
      by (simp add: nth_add_visible)
    then show ?thesis using Cons.prems by (simp add: foldl_add_visible_keeps)
  next
    case False
    with Cons show ?thesis by simp
  qed
qed

lemma foldl_add_visible_others:
  "j \<notin> set is \<Longrightarrow> j < length els \<Longrightarrow> foldl add_visible els is ! j = els ! j"
  by (induction "is" arbitrary: els) (simp_all add: nth_add_visible)

lemma mem_querySelectorAll_class:
  "i \<in> set (querySelectorAll_class c els) \<longleftrightarrow> i < length els \<and> classList_contains c (els ! i)"
  by (auto simp: querySelectorAll_class_def)

text \<open>
  The else branch of the reveal block, taken when reduced motion is requested or the
  observer API is missing: no observer, every tagged element visible, the others as
  they were.
\<close>

lemma fallback_reveals_all:
  assumes "reduceMotion \<or> \<not> hasIO"
  shows "observer (scroll_reveal reduceMotion hasIO els) = None"
    and "length (elements (scroll_reveal reduceMotion hasIO els)) = length els"
    and "i < length els \<Longrightarrow> classList_contains ''reveal'' (els ! i) \<Longrightarrow>
         classList_contains ''visible'' (elements (scroll_reveal reduceMotion hasIO els) ! i)"
    and "i < length els \<Longrightarrow> \<not> classList_contains ''reveal'' (els ! i) \<Longrightarrow>
         elements (scroll_reveal reduceMotion hasIO els) ! i = els ! i"
  using assms
  by (auto simp: scroll_reveal_def foldl_add_visible_marks foldl_add_visible_others
      mem_querySelectorAll_class)

text \<open>
  C8. With the reduced-motion preference set, initialisation leaves every element of class
  \<open>reveal\<close> with class \<open>visible\<close>, constructs no observer, and so no observer
  callback can change anything afterwards; this holds whether or not the observer API
  exists.
\<close>

theorem reduced_motion_reveals_all_without_observer:
  "observer (scroll_reveal True hasIO els) = None
   \<and> length (elements (scroll_reveal True hasIO els)) = length els
   \<and> (\<forall>i < length els. classList_contains ''reveal'' (els ! i) \<longrightarrow>
        classList_contains ''visible'' (elements (scroll_reveal True hasIO els) ! i))
   \<and> reveal_callback entries (scroll_reveal True hasIO els) = scroll_reveal True hasIO els"
  by (simp add: fallback_reveals_all reveal_callback_def)

theorem reduced_motion_reveals_all_without_observer_witness:
  "observer (scroll_reveal True True [[''reveal''], [''card''], [''card'', ''reveal'']]) = None
   \<and> elements (scroll_reveal True True [[''reveal''], [''card''], [''card'', ''reveal'']])
       = [[''reveal'', ''visible''], [''card''], [''card'', ''reveal'', ''visible'']]"
  using reduced_motion_reveals_all_without_observer
    [of True "[[''reveal''], [''card''], [''card'', ''reveal'']]" "[]"]
  by (simp add: scroll_reveal_def querySelectorAll_class_def classList_contains_def
      add_visible_def classList_add_def)

text \<open>
  C9. Without the \<open>IntersectionObserver\<close> API, initialisation leaves every element of
  class \<open>reveal\<close> with class \<open>visible\<close> and constructs no observer, also when reduced
  motion is not requested; the result is the one of the reduced-motion case.
\<close>

theorem no_observer_api_reveals_all:
  "observer (scroll_reveal reduceMotion False els) = None
   \<and> length (elements (scroll_reveal reduceMotion False els)) = length els
   \<and> (\<forall>i < length els. classList_contains ''reveal'' (els ! i) \<longrightarrow>
        classList_contains ''visible'' (elements (scroll_reveal reduceMotion False els) ! i))
   \<and> scroll_reveal reduceMotion False els = scroll_reveal True hasIO els"
  by (simp add: fallback_reveals_all) (simp add: scroll_reveal_def)

theorem no_observer_api_reveals_all_witness:
  "observer (scroll_reveal False False [[''reveal''], [''card'']]) = None
   \<and> elements (scroll_reveal False False [[''reveal''], [''card'']])
       = [[''reveal'', ''visible''], [''card'']]"
  using no_observer_api_reveals_all [of False "[[''reveal''], [''card'']]" True]
  by (simp add: scroll_reveal_def querySelectorAll_class_def classList_contains_def
      add_visible_def classList_add_def)

subsection \<open>Panel controllers\<close>

lemma setOpen_marker [simp]:
  "classList_contains ''open'' (siteNav_classList (setOpen opn p)) = opn"
  by (simp add: setOpen_def Let_def)

lemma setOpen_overflow: "body_overflow (setOpen opn p) = (if opn then ''hidden'' else '''')"
  by (simp add: setOpen_def Let_def)

lemma nav_handle_sync: "nav_in_sync p \<Longrightarrow> nav_in_sync (nav_handle e p)"
  by (cases e) (simp_all add: nav_in_sync_def scroll_locked_def setOpen_overflow)

lemma nav_run_sync: "nav_in_sync p \<Longrightarrow> nav_in_sync (nav_run es p)"
  unfolding nav_run_def by (induction es arbitrary: p) (simp_all add: nav_handle_sync)

lemma openSidebar_facts:
  "classList_contains ''open'' (sidebar_classList (openSidebar p))"
  "classList_contains ''open'' (backdrop_classList (openSidebar p))"
  "body_overflow (openSidebar p) = ''hidden''"
  by (simp_all add: openSidebar_def Let_def)

lemma closeSidebar_facts:
  "\<not> classList_contains ''open'' (sidebar_classList (closeSidebar p))"
  "\<not> classList_contains ''open'' (backdrop_classList (closeSidebar p))"
  "body_overflow (closeSidebar p) = ''''"
  by (simp_all add: closeSidebar_def Let_def)

lemma sidebar_handle_sync: "sidebar_in_sync p \<Longrightarrow> sidebar_in_sync (sidebar_handle e p)"
  by (cases e)
    (simp_all add: sidebar_in_sync_def scroll_locked_def openSidebar_facts closeSidebar_facts)

lemma sidebar_run_sync: "sidebar_in_sync p \<Longrightarrow> sidebar_in_sync (sidebar_run es p)"
  unfolding sidebar_run_def by (induction es arbitrary: p) (simp_all add: sidebar_handle_sync)

lemma openOverlay_facts:
  "classList_contains ''open'' (overlay_classList (openOverlay p))"
  "body_overflow (openOverlay p) = ''hidden''"
  by (simp_all add: openOverlay_def Let_def)

lemma closeOverlay_facts:
  "\<not> classList_contains ''open'' (overlay_classList (closeOverlay p))"
  "body_overflow (closeOverlay p) = ''''"
  by (simp_all add: closeOverlay_def Let_def)

lemma overlay_handle_sync: "overlay_in_sync p \<Longrightarrow> overlay_in_sync (overlay_handle e p)"
  by (cases e)
    (simp_all add: overlay_in_sync_def scroll_locked_def openOverlay_facts closeOverlay_facts)

lemma overlay_run_sync: "overlay_in_sync p \<Longrightarrow> overlay_in_sync (overlay_run es p)"
  unfolding overlay_run_def by (induction es arbitrary: p) (simp_all add: overlay_handle_sync)

text \<open>
  C1. For each of the three panel controllers, the open transition sets the panel's
  \<open>open\<close> class and sets the body's overflow to \<open>hidden\<close>, and the close transition
  removes the class and clears the overflow, so marker and lock agree after either,
  whatever the state before. Started where marker and lock agree (as on a page just
  loaded), any sequence of one controller's handler runs ends where they agree.
\<close>

theorem panels_open_marker_and_scroll_lock_in_sync:
  "(classList_contains ''open'' (siteNav_classList (setOpen True p))
      \<and> body_overflow (setOpen True p) = ''hidden''
      \<and> \<not> classList_contains ''open'' (siteNav_classList (setOpen False p))
      \<and> body_overflow (setOpen False p) = '''')
   \<and> (classList_contains ''open'' (sidebar_classList (openSidebar p))
      \<and> body_overflow (openSidebar p) = ''hidden''
      \<and> \<not> classList_contains ''open'' (sidebar_classList (closeSidebar p))
      \<and> body_overflow (closeSidebar p) = '''')
   \<and> (classList_contains ''open'' (overlay_classList (openOverlay p))
      \<and> body_overflow (openOverlay p) = ''hidden''
      \<and> \<not> classList_contains ''open'' (overlay_classList (closeOverlay p))
      \<and> body_overflow (closeOverlay p) = '''')
   \<and> (nav_in_sync (setOpen opn p)
      \<and> sidebar_in_sync (openSidebar p) \<and> sidebar_in_sync (closeSidebar p)
      \<and> overlay_in_sync (openOverlay p) \<and> overlay_in_sync (closeOverlay p))
   \<and> (nav_in_sync p \<longrightarrow> nav_in_sync (nav_run nes p))
   \<and> (sidebar_in_sync p \<longrightarrow> sidebar_in_sync (sidebar_run ses p))
   \<and> (overlay_in_sync p \<longrightarrow> overlay_in_sync (overlay_run oes p))"
proof -
  have "nav_in_sync (setOpen opn p)
      \<and> sidebar_in_sync (openSidebar p) \<and> sidebar_in_sync (closeSidebar p)
      \<and> overlay_in_sync (openOverlay p) \<and> overlay_in_sync (closeOverlay p)"
    by (simp add: setOpen_overflow openSidebar_facts closeSidebar_facts openOverlay_facts
        closeOverlay_facts nav_in_sync_def sidebar_in_sync_def overlay_in_sync_def
        scroll_locked_def)
  then show ?thesis
    by (simp add: setOpen_overflow openSidebar_facts closeSidebar_facts openOverlay_facts
        closeOverlay_facts nav_run_sync sidebar_run_sync overlay_run_sync)
qed

theorem panels_open_marker_and_scroll_lock_in_sync_witness:
  "nav_in_sync page_at_load \<and> sidebar_in_sync page_at_load \<and> overlay_in_sync page_at_load
   \<and> nav_in_sync
       (nav_run [ToggleClick, NavKeyDown ''Escape'', ToggleClick, NavResize True] page_at_load)
   \<and> sidebar_in_sync
       (sidebar_run [ToggleBtnClick, SidebarKeyDown ''Escape'', ToggleBtnClick] page_at_load)
   \<and> overlay_in_sync
       (overlay_run [PillClick, SheetClick False, PillClick, PillClick] page_at_load)"
proof -
  have n: "nav_in_sync page_at_load" and s: "sidebar_in_sync page_at_load"
    and o: "overlay_in_sync page_at_load"
    by (simp_all add: nav_in_sync_def sidebar_in_sync_def overlay_in_sync_def scroll_locked_def
        page_at_load_def classList_contains_def)
  from panels_open_marker_and_scroll_lock_in_sync
    [where p = page_at_load
       and nes = "[ToggleClick, NavKeyDown ''Escape'', ToggleClick, NavResize True]"
       and ses = "[ToggleBtnClick, SidebarKeyDown ''Escape'', ToggleBtnClick]"
       and oes = "[PillClick, SheetClick False, PillClick, PillClick]"] n s o
  show ?thesis by simp
qed

text \<open>
  The lock is one style shared by the three controllers, and each close transition clears
  it: with the navigation open, opening and closing the sidebar leaves the navigation
  marked open and the page unlocked. The agreement above is per controller.
\<close>

lemma shared_lock_last_writer_wins:
  "classList_contains ''open''
     (siteNav_classList (closeSidebar (openSidebar (setOpen True page_at_load))))
   \<and> body_overflow (closeSidebar (openSidebar (setOpen True page_at_load))) = ''''"
  by (simp add: closeSidebar_def openSidebar_def setOpen_def Let_def)

subsection \<open>The e-mail pattern\<close>

lemma match_here_Once:
  "match_here (Once a # ps) s \<longleftrightarrow> (\<exists>c s'. s = c # s' \<and> atom_matches a c \<and> match_here ps s')"
  by (cases s) simp_all

lemma match_here_OneOrMore:
  "match_here (OneOrMore a # ps) s \<longleftrightarrow>
   (\<exists>w s'. s = w @ s' \<and> w \<noteq> [] \<and> (\<forall>x \<in> set w. atom_matches a x) \<and> match_here ps s')"
proof (induction s)
  case Nil
  then show ?case by simp
next
  case (Cons c s)
  show ?case
  proof
    assume "match_here (OneOrMore a # ps) (c # s)"
    then have c: "atom_matches a c"
      and d: "match_here (OneOrMore a # ps) s \<or> match_here ps s" by simp_all
    from d show "\<exists>w s'. c # s = w @ s' \<and> w \<noteq> [] \<and> (\<forall>x \<in> set w. atom_matches a x) \<and> match_here ps s'"
    proof
      assume "match_here (OneOrMore a # ps) s"
      with Cons.IH obtain w s' where "s = w @ s'" "w \<noteq> []" "\<forall>x \<in> set w. atom_matches a x"
        "match_here ps s'" by blast
      with c have "c # s = (c # w) @ s' \<and> c # w \<noteq> [] \<and> (\<forall>x \<in> set (c # w). atom_matches a x)
        \<and> match_here ps s'" by simp
      then show ?thesis by blast
    next
      assume "match_here ps s"
      with c have "c # s = [c] @ s \<and> [c] \<noteq> [] \<and> (\<forall>x \<in> set [c]. atom_matches a x)
        \<and> match_here ps s" by simp
      then show ?thesis by blast
    qed
  next
    assume "\<exists>w s'. c # s = w @ s' \<and> w \<noteq> [] \<and> (\<forall>x \<in> set w. atom_matches a x) \<and> match_here ps s'"
    then obtain w s' where w: "c # s = w @ s'" "w \<noteq> []" "\<forall>x \<in> set w. atom_matches a x"
      "match_here ps s'" by blast
    then obtain w' where w': "w = c # w'" "s = w' @ s'" by (cases w) auto
    show "match_here (OneOrMore a # ps) (c # s)"
    proof (cases "w' = []")
      case True
      with w w' show ?thesis by simp
    next
      case False
      with w w' have "match_here (OneOrMore a # ps) s" using Cons.IH by auto
      with w w' show ?thesis by simp
    qed
  qed
qed

lemma regexp_test_iff:
  "regexp_test ps s \<longleftrightarrow> (\<exists>pre t. s = pre @ t \<and> match_here ps t)"
proof (induction s)
  case Nil
  then show ?case by simp
next
  case (Cons c s)
  show ?case
  proof
    assume "regexp_test ps (c # s)"
    then consider "match_here ps (c # s)" | "regexp_test ps s" by auto
    then show "\<exists>pre t. c # s = pre @ t \<and> match_here ps t"
    proof cases
      case 1
      then have "c # s = [] @ (c # s) \<and> match_here ps (c # s)" by simp
      then show ?thesis by blast
    next
      case 2
      with Cons.IH obtain pre t where "s = pre @ t" "match_here ps t" by blast
      then have "c # s = (c # pre) @ t \<and> match_here ps t" by simp
      then show ?thesis by blast
    qed
  next
    assume "\<exists>pre t. c # s = pre @ t \<and> match_here ps t"
    then obtain pre t where pt: "c # s = pre @ t" "match_here ps t" by blast
    show "regexp_test ps (c # s)"
    proof (cases pre)
      case Nil
      with pt have "t = c # s" by simp
      with pt show ?thesis by simp
    next
      case (Cons d pre')
      with pt have "s = pre' @ t" by simp
      with pt Cons.IH have "regexp_test ps s" by blast
      then show ?thesis by simp
    qed
  qed
qed

lemma match_here_email:
  "match_here email_regexp t \<longleftrightarrow>
   (\<exists>a b c0 rest. t = a @ [0x40] @ b @ [0x2E] @ c0 # rest \<and> a \<noteq> [] \<and> b \<noteq> []
      \<and> (\<forall>x \<in> set a. \<not> line_terminator x) \<and> (\<forall>x \<in> set b. \<not> line_terminator x)
      \<and> \<not> line_terminator c0)"
  (is "?L \<longleftrightarrow> ?R")
proof
  assume ?L
  then obtain a s1 where a: "t = a @ s1" "a \<noteq> []" "\<forall>x \<in> set a. \<not> line_terminator x"
    and m1: "match_here [Once (Literal 0x40), OneOrMore AnyChar, Once (Literal 0x2E), OneOrMore AnyChar] s1"
    unfolding email_regexp_def match_here_OneOrMore [of AnyChar] by auto
  from m1 obtain s2 where s2: "s1 = 0x40 # s2"
    and m2: "match_here [OneOrMore AnyChar, Once (Literal 0x2E), OneOrMore AnyChar] s2"
    unfolding match_here_Once [of "Literal 0x40"] by auto
  from m2 obtain b s3 where b: "s2 = b @ s3" "b \<noteq> []" "\<forall>x \<in> set b. \<not> line_terminator x"
    and m3: "match_here [Once (Literal 0x2E), OneOrMore AnyChar] s3"
    unfolding match_here_OneOrMore [of AnyChar] by auto
  from m3 obtain s4 where s4: "s3 = 0x2E # s4" and m4: "match_here [OneOrMore AnyChar] s4"
    unfolding match_here_Once [of "Literal 0x2E"] by auto
  from m4 obtain c0 rest where c: "s4 = c0 # rest" "\<not> line_terminator c0"
    by (cases s4) auto
  from a s2 b s4 c have "t = a @ [0x40] @ b @ [0x2E] @ c0 # rest" by simp
  with a b c show ?R by blast
next
  assume ?R
  then obtain a b c0 rest where t: "t = a @ [0x40] @ b @ [0x2E] @ c0 # rest"
    and a: "a \<noteq> []" "\<forall>x \<in> set a. \<not> line_terminator x"
    and b: "b \<noteq> []" "\<forall>x \<in> set b. \<not> line_terminator x"
    and c: "\<not> line_terminator c0" by blast
  from c have m4: "match_here [OneOrMore AnyChar] (c0 # rest)" by simp
  then have m3: "match_here [Once (Literal 0x2E), OneOrMore AnyChar] (0x2E # c0 # rest)" by simp
  from b m3 have "b @ 0x2E # c0 # rest = b @ (0x2E # c0 # rest) \<and> b \<noteq> []
      \<and> (\<forall>x \<in> set b. atom_matches AnyChar x)
      \<and> match_here [Once (Literal 0x2E), OneOrMore AnyChar] (0x2E # c0 # rest)" by simp
  then have m2: "match_here [OneOrMore AnyChar, Once (Literal 0x2E), OneOrMore AnyChar] (b @ 0x2E # c0 # rest)"
    unfolding match_here_OneOrMore [of AnyChar "[Once (Literal 0x2E), OneOrMore AnyChar]"]
    by blast
  then have m1: "match_here [Once (Literal 0x40), OneOrMore AnyChar, Once (Literal 0x2E), OneOrMore AnyChar] (0x40 # b @ 0x2E # c0 # rest)"
    by simp
  from a m1 have "a @ 0x40 # b @ 0x2E # c0 # rest = a @ (0x40 # b @ 0x2E # c0 # rest) \<and> a \<noteq> []
      \<and> (\<forall>x \<in> set a. atom_matches AnyChar x)
      \<and> match_here [Once (Literal 0x40), OneOrMore AnyChar, Once (Literal 0x2E), OneOrMore AnyChar]
            (0x40 # b @ 0x2E # c0 # rest)" by simp
  then have "match_here email_regexp (a @ 0x40 # b @ 0x2E # c0 # rest)"
    unfolding email_regexp_def match_here_OneOrMore [of AnyChar "[Once (Literal 0x40), OneOrMore AnyChar, Once (Literal 0x2E), OneOrMore AnyChar]"]
    by blast
  with t show ?L by simp
qed

text \<open>The pattern of the script accepts exactly the values of the loose shape.\<close>

lemma regexp_test_email: "regexp_test email_regexp s \<longleftrightarrow> loose_email_shape s"
proof
  assume "regexp_test email_regexp s"
  then obtain pre t where s: "s = pre @ t" and "match_here email_regexp t"
    unfolding regexp_test_iff by blast
  then obtain a b c0 rest where t: "t = a @ [0x40] @ b @ [0x2E] @ c0 # rest"
    and a: "a \<noteq> []" "\<forall>x \<in> set a. \<not> line_terminator x"
    and b: "b \<noteq> []" "\<forall>x \<in> set b. \<not> line_terminator x"
    and c: "\<not> line_terminator c0" unfolding match_here_email by blast
  from s t have "s = pre @ a @ [0x40] @ b @ [0x2E] @ [c0] @ rest" by simp
  moreover from a b c have "a \<noteq> [] \<and> b \<noteq> [] \<and> [c0] \<noteq> [] \<and> (\<forall>x \<in> set (a @ b @ [c0]). \<not> line_terminator x)"
    by auto
  ultimately show "loose_email_shape s" unfolding loose_email_shape_def by blast
next
  assume "loose_email_shape s"
  then obtain pre a b c post where s: "s = pre @ a @ [0x40] @ b @ [0x2E] @ c @ post"
    and ne: "a \<noteq> []" "b \<noteq> []" "c \<noteq> []" and lt: "\<forall>x \<in> set (a @ b @ c). \<not> line_terminator x"
    unfolding loose_email_shape_def by blast
  from ne obtain c0 c' where c: "c = c0 # c'" by (cases c) auto
  with lt ne have "a @ [0x40] @ b @ [0x2E] @ c @ post = a @ [0x40] @ b @ [0x2E] @ c0 # (c' @ post)
    \<and> a \<noteq> [] \<and> b \<noteq> [] \<and> (\<forall>x \<in> set a. \<not> line_terminator x) \<and> (\<forall>x \<in> set b. \<not> line_terminator x)
      \<and> \<not> line_terminator c0" by auto
  then have "match_here email_regexp (a @ [0x40] @ b @ [0x2E] @ c @ post)"
    unfolding match_here_email by blast
  with s show "regexp_test email_regexp s" unfolding regexp_test_iff by blast
qed

lemma loose_email_shape_has_at: "loose_email_shape s \<Longrightarrow> 0x40 \<in> set s"
  by (auto simp: loose_email_shape_def)

subsection \<open>Trimming and numbers\<close>

lemma trim_eq_Nil_iff: "trim s = [] \<longleftrightarrow> (\<forall>x \<in> set s. blank_char x)"
proof
  assume "trim s = []"
  then have *: "\<forall>x \<in> set (dropWhile blank_char s). blank_char x"
    by (simp add: trim_def dropWhile_eq_Nil_conv)
  show "\<forall>x \<in> set s. blank_char x"
  proof (cases "dropWhile blank_char s = []")
    case True
    then show ?thesis by (simp add: dropWhile_eq_Nil_conv)
  next
    case False
    then have "\<not> blank_char (hd (dropWhile blank_char s))" by (rule hd_dropWhile)
    moreover from False have "hd (dropWhile blank_char s) \<in> set (dropWhile blank_char s)" by simp
    ultimately show ?thesis using * by blast
  qed
next
  assume "\<forall>x \<in> set s. blank_char x"
  then have "\<forall>x \<in> set (dropWhile blank_char s). blank_char x"
    by (blast dest: set_dropWhileD)
  then show "trim s = []" by (simp add: trim_def dropWhile_eq_Nil_conv)
qed

lemma not_blank_at: "\<not> blank_char 0x40"
  by (simp add: blank_char_def white_space_def line_terminator_def)

lemma js_Nil [simp]: "js [] = []" by (simp add: js_def)
lemma js_eq_Nil [simp]: "js s = [] \<longleftrightarrow> s = []" by (simp add: js_def)
lemma Nil_eq_js [simp]: "[] = js s \<longleftrightarrow> s = []" by (auto simp: js_def)

lemma Number_Nil: "Number conv [] = Finite 0"
  by (simp add: Number_def trim_def)

lemma Number_ten: "Number conv (js ''10'') = Finite 10"
  by (simp add: Number_def trim_def js_def blank_char_def white_space_def line_terminator_def
      is_digit_def decimal_value_def)

lemma trim_short: "trim (js ''short'') = js ''short''"
  by (simp add: trim_def js_def blank_char_def white_space_def line_terminator_def)

subsection \<open>Validators\<close>

text \<open>Which validator a pass runs: by tag first, then by the \<open>type\<close> property.\<close>

lemma message_dispatch:
  "tagName f = TEXTAREA \<Longrightarrow> message conv f = textarea conv f"
  "tagName f = INPUT \<Longrightarrow> input_type f = ''email'' \<Longrightarrow> message conv f = email f"
  "tagName f = INPUT \<Longrightarrow> input_type f \<noteq> ''email'' \<Longrightarrow> input_type f \<noteq> ''textarea'' \<Longrightarrow>
   message conv f = text_validator f"
  by (simp_all add: message_def field_kind_def tagName_toLowerCase_def validators_def)

text \<open>
  C3. The e-mail validator answers the required message for the empty value; for any other
  value it answers the invalid-format message exactly when the value has not the loose
  shape \<open>text@text.text\<close>, and no message when it has. So \<open>a@b\<close> is invalid and
  \<open>a@b.com\<close> passes.
\<close>

theorem email_validator_messages:
  "email f =
     (if field_value f = [] then js ''Email is required.''
      else if loose_email_shape (field_value f) then [] else js ''Enter a valid email.'')
   \<and> email (f\<lparr>field_value := []\<rparr>) = js ''Email is required.''
   \<and> email (f\<lparr>field_value := js ''a@b''\<rparr>) = js ''Enter a valid email.''
   \<and> email (f\<lparr>field_value := js ''a@b.com''\<rparr>) = []"
proof -
  have "email f =
     (if field_value f = [] then js ''Email is required.''
      else if loose_email_shape (field_value f) then [] else js ''Enter a valid email.'')"
    by (simp add: email_def regexp_test_email)
  moreover have "email (f\<lparr>field_value := []\<rparr>) = js ''Email is required.''"
    by (simp add: email_def)
  moreover have "email (f\<lparr>field_value := js ''a@b''\<rparr>) = js ''Enter a valid email.''"
    by (simp add: email_def js_def email_regexp_def line_terminator_def)
  moreover have "email (f\<lparr>field_value := js ''a@b.com''\<rparr>) = []"
    by (simp add: email_def js_def email_regexp_def line_terminator_def)
  ultimately show ?thesis by blast
qed

theorem email_validator_messages_witness:
  "email example_email_field = [] \<and> loose_email_shape (js ''x@y.z'')"
proof -
  have e: "email example_email_field = []"
    by (simp add: email_def example_email_field_def js_def email_regexp_def line_terminator_def)
  have v: "field_value example_email_field = js ''x@y.z''"
    "js ''x@y.z'' \<noteq> []" "js ''Enter a valid email.'' \<noteq> []"
    by (simp_all add: example_email_field_def)
  from email_validator_messages [of example_email_field] e v
  have "loose_email_shape (js ''x@y.z'')"
    by (simp split: if_splits)
  with e show ?thesis by simp
qed

text \<open>
  C10. The e-mail validator neither trims the value nor reads the \<open>required\<close> property:
  a non-empty value of blanks only gets the invalid-format message, and the empty value
  gets the required message whatever \<open>required\<close> is.
\<close>

theorem email_validator_no_trim_no_required:
  "(field_value f \<noteq> [] \<and> trim (field_value f) = [] \<longrightarrow> email f = js ''Enter a valid email.'')
   \<and> (field_value f = [] \<longrightarrow> email f = js ''Email is required.'')
   \<and> email (f\<lparr>required := r\<rparr>) = email f
   \<and> email (f\<lparr>required := True, field_value := js ''   ''\<rparr>) = js ''Enter a valid email.''
   \<and> email (f\<lparr>required := False, field_value := []\<rparr>) = js ''Email is required.''"
proof -
  have "email f = js ''Enter a valid email.''" if "field_value f \<noteq> []" "trim (field_value f) = []"
  proof -
    from that(2) have "\<forall>x \<in> set (field_value f). blank_char x" by (simp add: trim_eq_Nil_iff)
    with not_blank_at have "0x40 \<notin> set (field_value f)" by blast
    then have "\<not> loose_email_shape (field_value f)" using loose_email_shape_has_at by blast
    with that(1) show ?thesis by (simp add: email_def regexp_test_email)
  qed
  moreover have "email (f\<lparr>required := True, field_value := js ''   ''\<rparr>) = js ''Enter a valid email.''"
    by (simp add: email_def js_def email_regexp_def line_terminator_def)
  ultimately show ?thesis by (simp add: email_def)
qed

theorem email_validator_no_trim_no_required_witness:
  "field_value (example_email_field\<lparr>field_value := js '' ''\<rparr>) \<noteq> []
   \<and> trim (field_value (example_email_field\<lparr>field_value := js '' ''\<rparr>)) = []
   \<and> email (example_email_field\<lparr>field_value := js '' ''\<rparr>) = js ''Enter a valid email.''
   \<and> email (example_email_field\<lparr>required := False, field_value := []\<rparr>) = js ''Email is required.''"
proof -
  have h: "field_value (example_email_field\<lparr>field_value := js '' ''\<rparr>) \<noteq> []"
    "trim (field_value (example_email_field\<lparr>field_value := js '' ''\<rparr>)) = []"
    by (simp_all add: js_def trim_def blank_char_def white_space_def)
  from email_validator_no_trim_no_required [of "example_email_field\<lparr>field_value := js '' ''\<rparr>" False] h
  have "email (example_email_field\<lparr>field_value := js '' ''\<rparr>) = js ''Enter a valid email.''"
    by blast
  moreover
  from email_validator_no_trim_no_required [of "example_email_field\<lparr>required := False, field_value := []\<rparr>" False]
  have "email (example_email_field\<lparr>required := False, field_value := []\<rparr>) = js ''Email is required.''"
    by simp
  ultimately show ?thesis using h by blast
qed

text \<open>
  C4. The textarea validator answers the required message when the field is required and
  its trimmed value is empty; otherwise the too-short message when a \<open>minlength\<close>
  attribute is present and the trimmed length is below its number; otherwise no message.
  With \<open>required\<close> and \<open>minlength="10"\<close>: \<open>short\<close> is too short, ten or more trimmed
  characters pass, the empty value is required.
\<close>

theorem textarea_validator_messages:
  "textarea conv f =
     (if required f \<and> trim (field_value f) = [] then js ''Message is required.''
      else case minlength f of
             None \<Rightarrow> []
           | Some m \<Rightarrow>
               if length_less (length (trim (field_value f))) (Number conv m)
               then js ''Please write at least '' @ m @ js '' characters.''
               else [])
   \<and> textarea conv (f\<lparr>required := True, minlength := Some (js ''10''), field_value := js ''short''\<rparr>)
       = js ''Please write at least 10 characters.''
   \<and> (10 \<le> length (trim v) \<longrightarrow>
        textarea conv (f\<lparr>required := True, minlength := Some (js ''10''), field_value := v\<rparr>) = [])
   \<and> textarea conv (f\<lparr>required := True, minlength := Some (js ''10''), field_value := []\<rparr>)
       = js ''Message is required.''"
proof -
  have "textarea conv f =
     (if required f \<and> trim (field_value f) = [] then js ''Message is required.''
      else case minlength f of
             None \<Rightarrow> []
           | Some m \<Rightarrow>
               if length_less (length (trim (field_value f))) (Number conv m)
               then js ''Please write at least '' @ m @ js '' characters.''
               else [])"
    by (auto simp: textarea_def Number_Nil split: option.splits)
  moreover have "textarea conv (f\<lparr>required := True, minlength := Some (js ''10''), field_value := js ''short''\<rparr>)
       = js ''Please write at least 10 characters.''"
    by (simp add: textarea_def Number_ten trim_short) (simp add: js_def)
  moreover have "textarea conv (f\<lparr>required := True, minlength := Some (js ''10''), field_value := v\<rparr>) = []"
    if "10 \<le> length (trim v)"
  proof -
    from that have "trim v \<noteq> []" by auto
    with that show ?thesis by (simp add: textarea_def Number_ten)
  qed
  moreover have "textarea conv (f\<lparr>required := True, minlength := Some (js ''10''), field_value := []\<rparr>)
       = js ''Message is required.''"
    by (simp add: textarea_def trim_def)
  ultimately show ?thesis by blast
qed

theorem textarea_validator_messages_witness:
  "10 \<le> length (trim (js '' hello there ''))
   \<and> textarea (\<lambda>s. NaN)
        (example_textarea\<lparr>required := True, minlength := Some (js ''10''),
           field_value := js '' hello there ''\<rparr>) = []"
proof -
  have "trim (js '' hello there '') = js ''hello there''"
    by (simp add: trim_def js_def blank_char_def white_space_def line_terminator_def)
  then have l: "10 \<le> length (trim (js '' hello there ''))" by (simp add: js_def)
  with textarea_validator_messages [of "\<lambda>s. NaN" example_textarea "js '' hello there ''"]
  show ?thesis by blast
qed

subsection \<open>One validation pass\<close>

lemma ensureErrorEl_class:
  "classList_contains ''field-error'' (el_classList (fst (ensureErrorEl f)))"
  by (simp add: ensureErrorEl_def nextElementSibling_def createElement_div_def
      classList_contains_def split: list.splits)

lemma ensureErrorEl_cases:
  "following f = fst (ensureErrorEl f) # snd (ensureErrorEl f)
   \<or> (fst (ensureErrorEl f) = \<lparr>el_classList = [''field-error''], textContent = []\<rparr>
       \<and> snd (ensureErrorEl f) = following f)"
  by (cases "following f")
    (simp_all add: ensureErrorEl_def nextElementSibling_def createElement_div_def)

lemma showError_facts:
  "\<exists>err rest. following (showError f msg) = err # rest
     \<and> textContent err = msg
     \<and> classList_contains ''field-error'' (el_classList err)
     \<and> classList_contains ''active'' (el_classList err) = (msg \<noteq> [])"
  "classList_contains ''error'' (field_classList (showError f msg)) = (msg \<noteq> [])"
  "aria_invalid (showError f msg) = Some (if msg \<noteq> [] then ''true'' else ''false'')"
  using ensureErrorEl_class [of f]
  by (auto simp: showError_def Let_def contains_toggle_other split: prod.splits)

lemma validate_error_class:
  "classList_contains ''error'' (field_classList (fst (validate conv f))) = (message conv f \<noteq> [])"
  by (simp add: validate_def Let_def showError_facts(2))

text \<open>
  C6. After a validation pass on a field, whatever its state before, the error display
  next to the field holds the validator's message and has class \<open>active\<close> exactly when
  that text is non-empty; the field has class \<open>error\<close> exactly then, and its
  \<open>aria-invalid\<close> is \<open>true\<close> exactly then and \<open>false\<close> otherwise. The pass returns
  true exactly when the text is empty.
\<close>

theorem validation_pass_keeps_message_and_marks_consistent:
  "\<exists>err. nextElementSibling (fst (validate conv f)) = Some err
     \<and> textContent err = message conv f
     \<and> classList_contains ''field-error'' (el_classList err)
     \<and> classList_contains ''active'' (el_classList err) = (textContent err \<noteq> [])
     \<and> classList_contains ''error'' (field_classList (fst (validate conv f)))
         = (textContent err \<noteq> [])
     \<and> (aria_invalid (fst (validate conv f)) = Some ''true'') = (textContent err \<noteq> [])
     \<and> (aria_invalid (fst (validate conv f)) = Some ''false'') = (textContent err = [])
     \<and> snd (validate conv f) = (textContent err = [])"
proof -
  obtain err rest where e: "following (showError f (message conv f)) = err # rest"
    "textContent err = message conv f"
    "classList_contains ''field-error'' (el_classList err)"
    "classList_contains ''active'' (el_classList err) = (message conv f \<noteq> [])"
    using showError_facts(1) [of f "message conv f"] by blast
  then have "nextElementSibling (fst (validate conv f)) = Some err"
    by (simp add: validate_def Let_def nextElementSibling_def)
  with e show ?thesis
    by (simp add: validate_def Let_def showError_facts(2,3))
qed

text \<open>
  The error display is created once and reused: a pass reads only the field's tag, type,
  value, \<open>required\<close> and \<open>minlength\<close>, which it leaves alone, and a second pass
  changes nothing.
\<close>

lemma showError_frame:
  "tagName (showError f msg) = tagName f"
  "input_type (showError f msg) = input_type f"
  "field_value (showError f msg) = field_value f"
  "required (showError f msg) = required f"
  "minlength (showError f msg) = minlength f"
  by (cases "ensureErrorEl f"; simp add: showError_def Let_def)+

lemma message_cong:
  assumes "tagName g = tagName f" "input_type g = input_type f" "field_value g = field_value f"
    "required g = required f" "minlength g = minlength f"
  shows "message conv g = message conv f"
proof -
  have "field_kind g = field_kind f" using assms by (simp add: field_kind_def)
  moreover have "email g = email f" using assms by (simp add: email_def)
  moreover have "text_validator g = text_validator f" using assms by (simp add: text_validator_def)
  moreover have "textarea conv g = textarea conv f" using assms by (simp add: textarea_def split: option.splits)
  ultimately show ?thesis by (simp add: message_def validators_def)
qed

lemma message_showError [simp]: "message conv (showError f msg) = message conv f"
  by (rule message_cong) (simp_all add: showError_frame)

lemma showError_idem: "showError (showError f msg) msg = showError f msg"
proof -
  obtain err rest where e: "ensureErrorEl f = (err, rest)" by (cases "ensureErrorEl f")
  have c: "classList_contains ''field-error'' (el_classList err)"
    using ensureErrorEl_class [of f] e by simp
  let ?err2 = "err\<lparr>textContent := msg,
      el_classList := classList_toggle ''active'' (msg \<noteq> []) (el_classList err)\<rparr>"
  have f1: "following (showError f msg) = ?err2 # rest"
    using e by (simp add: showError_def Let_def)
  from c have "classList_contains ''field-error'' (el_classList ?err2)"
    by (simp add: contains_toggle_other)
  with f1 have e2: "ensureErrorEl (showError f msg) = (?err2, rest)"
    by (simp add: ensureErrorEl_def nextElementSibling_def)
  show ?thesis
    unfolding showError_def [of "showError f msg"] e2
    using e by (simp add: Let_def showError_def classList_toggle_idem)
qed

lemma validate_idem: "validate conv (fst (validate conv f)) = validate conv f"
  by (simp add: validate_def Let_def showError_idem)

subsection \<open>Submit\<close>

lemma validate_each_eq:
  "validate_each conv ns ok =
     (map (revalidate conv) ns, ok \<and> (\<forall>f. FieldNode f \<in> set ns \<longrightarrow> message conv f = []))"
proof (induction conv ns ok rule: validate_each.induct)
  case (1 conv ok)
  then show ?case by simp
next
  case (2 conv el ns ok)
  then show ?case by (simp add: revalidate_def)
next
  case (3 conv f ns ok)
  have v: "validate conv f = (showError f (message conv f), message conv f = [])"
    by (simp add: validate_def Let_def)
  from "3.IH" [OF v [symmetric] refl]
  have "validate_each conv ns (if \<not> (message conv f = []) then False else ok) =
    (map (revalidate conv) ns,
     (if \<not> (message conv f = []) then False else ok) \<and> (\<forall>f. FieldNode f \<in> set ns \<longrightarrow> message conv f = []))" .
  with v show ?case
    by (auto simp: revalidate_def)
qed

lemma first_with_class_None:
  "\<forall>el \<in> set els. \<not> classList_contains c (el_classList el) \<Longrightarrow> first_with_class c els j = None"
  by (induction els arbitrary: j) simp_all

lemma showError_following_class:
  assumes "\<forall>el \<in> set (following f). \<not> classList_contains ''error'' (el_classList el)"
  shows "\<forall>el \<in> set (following (showError f msg)). \<not> classList_contains ''error'' (el_classList el)"
proof -
  have "\<not> classList_contains ''error'' (el_classList (fst (ensureErrorEl f)))
    \<and> (\<forall>el \<in> set (snd (ensureErrorEl f)). \<not> classList_contains ''error'' (el_classList el))"
    using ensureErrorEl_cases [of f]
  proof
    assume "following f = fst (ensureErrorEl f) # snd (ensureErrorEl f)"
    with assms show ?thesis by (metis list.set_intros(1) list.set_intros(2))
  next
    assume "fst (ensureErrorEl f) = \<lparr>el_classList = [''field-error''], textContent = []\<rparr>
       \<and> snd (ensureErrorEl f) = following f"
    with assms show ?thesis by (simp add: classList_contains_def)
  qed
  then show ?thesis
    by (cases "ensureErrorEl f") (simp add: showError_def Let_def contains_toggle_other)
qed

lemma only_fields_carry_revalidate:
  assumes "only_fields_carry ''error'' ns"
  shows "only_fields_carry ''error'' (map (revalidate conv) ns)"
  unfolding only_fields_carry_def
proof (intro ballI)
  fix m el assume m: "m \<in> set (map (revalidate conv) ns)" and el: "el \<in> set (plain_elements m)"
  from m obtain n where n: "n \<in> set ns" "m = revalidate conv n" by auto
  from assms n have h: "\<forall>el \<in> set (plain_elements n). \<not> classList_contains ''error'' (el_classList el)"
    by (simp add: only_fields_carry_def)
  show "\<not> classList_contains ''error'' (el_classList el)"
  proof (cases n)
    case (FieldNode f)
    with h have "\<forall>el \<in> set (following (showError f (message conv f))). \<not> classList_contains ''error'' (el_classList el)"
      by (simp add: showError_following_class)
    with FieldNode n el show ?thesis by (simp add: revalidate_def validate_def Let_def)
  next
    case (OtherNode e)
    with h n el show ?thesis by (simp add: revalidate_def)
  qed
qed

lemma submit_nodes: "form_nodes (submit conv ns) = map (revalidate conv) ns"
  by (simp add: submit_def validate_each_eq)

lemma submit_prevented:
  "defaultPrevented (submit conv ns) = (\<exists>f. FieldNode f \<in> set ns \<and> message conv f \<noteq> [])"
  by (auto simp: submit_def validate_each_eq)

lemma submit_focus:
  "focus_called_on (submit conv ns) =
     (if defaultPrevented (submit conv ns)
      then querySelector_class ''error'' (form_nodes (submit conv ns)) 0 else None)"
  by (simp add: submit_def validate_each_eq)

lemma message_name_field: "message conv name_field = []"
  by (simp add: message_def validators_def field_kind_def tagName_toLowerCase_def
      name_field_def text_validator_def trim_def js_def blank_char_def white_space_def
      line_terminator_def)

lemma message_empty_message_field: "message conv empty_message_field = js ''Message is required.''"
  by (simp add: message_def validators_def field_kind_def tagName_toLowerCase_def
      empty_message_field_def textarea_def trim_def)

text \<open>
  On submit every field goes through one validation pass; the default action is prevented
  exactly when some field has a message, and when none has, nothing is focused.
\<close>

lemma submit_handler_outcome:
  "form_nodes (submit conv ns) = map (revalidate conv) ns
   \<and> defaultPrevented (submit conv ns) = (\<exists>f. FieldNode f \<in> set ns \<and> message conv f \<noteq> [])
   \<and> (\<not> defaultPrevented (submit conv ns) \<longrightarrow> focus_called_on (submit conv ns) = None)"
  by (simp add: submit_nodes submit_prevented [symmetric] submit_focus)

lemma querySelector_class_append:
  "querySelector_class c (xs @ ys) i =
     (case querySelector_class c xs i of
        Some r \<Rightarrow> Some r
      | None \<Rightarrow> querySelector_class c ys (i + length xs))"
proof (induction xs arbitrary: i)
  case Nil
  then show ?case by simp
next
  case (Cons n xs)
  then show ?case by (cases n) (simp_all split: option.splits)
qed

lemma querySelector_class_None:
  assumes "only_fields_carry c xs"
    and "\<forall>f. FieldNode f \<in> set xs \<longrightarrow> \<not> classList_contains c (field_classList f)"
  shows "querySelector_class c xs i = None"
  using assms
proof (induction xs arbitrary: i)
  case Nil
  then show ?case by simp
next
  case (Cons n xs)
  from Cons.prems(1) have tl: "only_fields_carry c xs"
    and hd: "\<forall>el \<in> set (plain_elements n). \<not> classList_contains c (el_classList el)"
    by (simp_all add: only_fields_carry_def)
  from Cons.prems(2) have "\<forall>f. FieldNode f \<in> set xs \<longrightarrow> \<not> classList_contains c (field_classList f)"
    by simp
  with Cons.IH tl have r: "querySelector_class c xs (Suc i) = None" by blast
  show ?case
  proof (cases n)
    case (FieldNode f)
    with Cons.prems(2) have "\<not> classList_contains c (field_classList f)" by simp
    moreover from hd FieldNode have "first_with_class c (following f) 0 = None"
      by (simp add: first_with_class_None)
    ultimately show ?thesis using FieldNode r by simp
  next
    case (OtherNode el)
    with hd r show ?thesis by simp
  qed
qed

text \<open>
  Where no element other than a field carries the class \<open>error\<close> before the first field
  with a message, \<open>focus\<close> is called on that field.
\<close>

lemma submit_focuses_first_failing_field:
  assumes k: "k < length ns" "ns ! k = FieldNode f" "message conv f \<noteq> []"
    and before: "\<forall>j<k. \<forall>g. ns ! j = FieldNode g \<longrightarrow> message conv g = []"
    and plain: "only_fields_carry ''error'' (take k ns)"
  shows "defaultPrevented (submit conv ns) \<and> focus_called_on (submit conv ns) = Some (FieldRef k)"
proof -
  from k(1,2) have "FieldNode f \<in> set ns" by (metis nth_mem)
  with k(3) have p: "defaultPrevented (submit conv ns)"
    by (auto simp: submit_prevented)
  let ?xs = "map (revalidate conv) (take k ns)"
  let ?ys = "map (revalidate conv) (drop (Suc k) ns)"
  from k(1) have "ns = take k ns @ ns ! k # drop (Suc k) ns" by (rule id_take_nth_drop)
  then have "map (revalidate conv) ns = map (revalidate conv) (take k ns @ ns ! k # drop (Suc k) ns)"
    by simp
  with k(2) have ms: "map (revalidate conv) ns = ?xs @ FieldNode (fst (validate conv f)) # ?ys"
    by (simp add: revalidate_def)
  have o: "only_fields_carry ''error'' ?xs"
    using plain by (rule only_fields_carry_revalidate)
  have nf: "\<forall>h. FieldNode h \<in> set ?xs \<longrightarrow> \<not> classList_contains ''error'' (field_classList h)"
  proof (intro allI impI)
    fix h assume "FieldNode h \<in> set ?xs"
    then obtain n where n: "n \<in> set (take k ns)" "FieldNode h = revalidate conv n" by auto
    from n(2) obtain g where g: "n = FieldNode g" "h = fst (validate conv g)"
      by (cases n) (simp_all add: revalidate_def)
    from n(1) obtain j where j: "j < length (take k ns)" "take k ns ! j = n"
      by (auto simp: in_set_conv_nth)
    with k(1) g have "j < k" "ns ! j = FieldNode g" by simp_all
    with before have "message conv g = []" by blast
    with g show "\<not> classList_contains ''error'' (field_classList h)"
      by (simp add: validate_error_class)
  qed
  have "querySelector_class ''error'' ?xs 0 = None"
    using o nf by (rule querySelector_class_None)
  moreover from k(1) have "length ?xs = k" by simp
  moreover from k(3) have "classList_contains ''error'' (field_classList (fst (validate conv f)))"
    by (simp add: validate_error_class)
  ultimately have "querySelector_class ''error'' (map (revalidate conv) ns) 0 = Some (FieldRef k)"
    by (simp add: ms querySelector_class_append)
  with p show ?thesis by (simp add: submit_focus submit_nodes)
qed

lemma submit_plain_form:
  "defaultPrevented (submit (\<lambda>s. NaN) plain_form)
   \<and> focus_called_on (submit (\<lambda>s. NaN) plain_form) = Some (FieldRef 2)"
proof -
  have "only_fields_carry ''error'' (take 2 plain_form)"
    by (simp add: plain_form_def only_fields_carry_def name_field_def classList_contains_def)
  moreover have "\<forall>j<2. \<forall>g. plain_form ! j = FieldNode g \<longrightarrow> message (\<lambda>s. NaN) g = []"
    by (simp add: plain_form_def message_name_field less_Suc_eq numeral_2_eq_2)
  moreover have "2 < length plain_form" "plain_form ! 2 = FieldNode empty_message_field"
    "message (\<lambda>s. NaN) empty_message_field \<noteq> []"
    by (simp_all add: plain_form_def message_empty_message_field)
  ultimately show ?thesis
    using submit_focuses_first_failing_field [of 2 plain_form empty_message_field "\<lambda>s. NaN"]
    by blast
qed

lemma submit_tail_banner_form:
  "defaultPrevented (submit (\<lambda>s. NaN) tail_banner_form)
   \<and> focus_called_on (submit (\<lambda>s. NaN) tail_banner_form) = Some (FieldRef 1)"
proof -
  have "only_fields_carry ''error'' (take 1 tail_banner_form)"
    by (simp add: tail_banner_form_def only_fields_carry_def name_field_def)
  moreover have "\<forall>j<1. \<forall>g. tail_banner_form ! j = FieldNode g \<longrightarrow> message (\<lambda>s. NaN) g = []"
    by (simp add: tail_banner_form_def message_name_field)
  moreover have "1 < length tail_banner_form" "tail_banner_form ! 1 = FieldNode empty_message_field"
    "message (\<lambda>s. NaN) empty_message_field \<noteq> []"
    by (simp_all add: tail_banner_form_def message_empty_message_field)
  ultimately show ?thesis
    using submit_focuses_first_failing_field [of 1 tail_banner_form empty_message_field "\<lambda>s. NaN"]
    by blast
qed

text \<open>
  C5. When a field fails validation, focus is to move to the first field carrying the class
  \<open>error\<close>. The handler asks the form for its first element of that class, of whatever
  kind. In a form that opens with a notice of class \<open>error\<close>, followed by a valid field
  and an empty required textarea, submit is prevented, the textarea at position 2 is the
  first field that carries the class after the pass (the field at position 1 does not),
  and \<open>focus\<close> is called on the notice at position 0, not on the textarea.
\<close>

theorem submit_focus_not_first_error_field:
  "defaultPrevented (submit (\<lambda>s. NaN) banner_form)
   \<and> focus_called_on (submit (\<lambda>s. NaN) banner_form) = Some (OtherRef 0)
   \<and> focus_called_on (submit (\<lambda>s. NaN) banner_form) \<noteq> Some (FieldRef 2)
   \<and> form_nodes (submit (\<lambda>s. NaN) banner_form) ! 1 = FieldNode (fst (validate (\<lambda>s. NaN) name_field))
   \<and> \<not> classList_contains ''error'' (field_classList (fst (validate (\<lambda>s. NaN) name_field)))
   \<and> form_nodes (submit (\<lambda>s. NaN) banner_form) ! 2
       = FieldNode (fst (validate (\<lambda>s. NaN) empty_message_field))
   \<and> classList_contains ''error''
       (field_classList (fst (validate (\<lambda>s. NaN) empty_message_field)))"
proof -
  have b: "classList_contains ''error'' [''notice'', ''error'']"
    by (simp add: classList_contains_def)
  have m: "\<exists>f. (f = name_field \<or> f = empty_message_field) \<and> message (\<lambda>s. NaN) f \<noteq> []"
    using message_empty_message_field [of "\<lambda>s. NaN"] by auto
  show ?thesis
    by (simp add: submit_nodes submit_prevented submit_focus banner_form_def revalidate_def
        validate_error_class message_name_field message_empty_message_field b m)
qed

subsection \<open>Scroll-spy\<close>

lemma visible_entries_head:
  assumes "visible_entries entries = h # t"
  shows "h \<in> set entries" "isIntersecting h"
    "\<forall>e \<in> set entries. isIntersecting e \<longrightarrow> boundingClientRect_top h \<le> boundingClientRect_top e"
proof -
  let ?v = "filter isIntersecting entries"
  from assms have "h \<in> set (sort_key boundingClientRect_top ?v)"
    by (simp add: visible_entries_def)
  then show "h \<in> set entries" "isIntersecting h" by simp_all
  have "sorted (map boundingClientRect_top (sort_key boundingClientRect_top ?v))"
    by (rule sorted_sort_key)
  with assms have "\<forall>x \<in> set t. boundingClientRect_top h \<le> boundingClientRect_top x"
    by (simp add: visible_entries_def)
  moreover have "set ?v = set (h # t)"
    using assms by (metis visible_entries_def set_sort)
  ultimately show "\<forall>e \<in> set entries. isIntersecting e \<longrightarrow> boundingClientRect_top h \<le> boundingClientRect_top e"
    by auto
qed

lemma visible_entries_Nil: "visible_entries entries = [] \<longleftrightarrow> (\<forall>e \<in> set entries. \<not> isIntersecting e)"
proof -
  have "visible_entries entries = [] \<longleftrightarrow> set (visible_entries entries) = {}" by simp
  also have "\<dots> \<longleftrightarrow> set (filter isIntersecting entries) = {}" by (simp add: visible_entries_def)
  also have "\<dots> \<longleftrightarrow> (\<forall>e \<in> set entries. \<not> isIntersecting e)" by auto
  finally show ?thesis .
qed

lemma setActive_facts:
  "length (setActive ident navLinks) = length navLinks"
  "i < length navLinks \<Longrightarrow> href (setActive ident navLinks ! i) = href (navLinks ! i)"
  "i < length navLinks \<Longrightarrow>
   classList_contains ''active'' (link_classList (setActive ident navLinks ! i))
     = (href (navLinks ! i) = ''#'' @ ident)"
  by (simp_all add: setActive_def)

lemma spy_without_visible_entry:
  "\<forall>e \<in> set entries. \<not> isIntersecting e \<Longrightarrow> spy entries navLinks = navLinks"
  by (simp add: spy_def visible_entries_Nil [symmetric])

text \<open>
  Whenever some entry is intersecting, the section made active is one of smallest top
  among the intersecting entries.
\<close>

lemma spy_marks_a_topmost_entry:
  assumes "\<exists>e \<in> set entries. isIntersecting e"
  shows "\<exists>e \<in> set entries. isIntersecting e
      \<and> (\<forall>e' \<in> set entries. isIntersecting e' \<longrightarrow>
            boundingClientRect_top e \<le> boundingClientRect_top e')
      \<and> spy entries navLinks = setActive (target_id e) navLinks"
proof -
  from assms have "visible_entries entries \<noteq> []" by (simp add: visible_entries_Nil)
  then obtain h t where v: "visible_entries entries = h # t"
    by (cases "visible_entries entries") auto
  from visible_entries_head [OF v] v show ?thesis by (auto simp: spy_def)
qed

text \<open>
  Among the entries of one notification, let a section be intersecting and have its top
  strictly above (smaller than) the top of every intersecting entry of another section.
  Then the callback marks active exactly the links whose \<open>href\<close> is \<open>#\<close> followed by
  that section's id, and no other link.
\<close>

lemma spy_marks_topmost_of_notification:
  assumes "e \<in> set entries" and "isIntersecting e"
    and "\<forall>e' \<in> set entries. isIntersecting e' \<and> target_id e' \<noteq> target_id e \<longrightarrow>
           boundingClientRect_top e < boundingClientRect_top e'"
  shows "spy entries navLinks = setActive (target_id e) navLinks
    \<and> (\<forall>i < length navLinks.
          classList_contains ''active'' (link_classList (spy entries navLinks ! i))
            = (href (navLinks ! i) = ''#'' @ target_id e))"
proof -
  from assms(1,2) have "visible_entries entries \<noteq> []" by (auto simp: visible_entries_Nil)
  then obtain h t where v: "visible_entries entries = h # t" by (cases "visible_entries entries") auto
  note h = visible_entries_head [OF v]
  have "target_id h = target_id e"
  proof (rule ccontr)
    assume "target_id h \<noteq> target_id e"
    with assms(3) h(1,2) have "boundingClientRect_top e < boundingClientRect_top h" by blast
    moreover from h(3) assms(1,2) have "boundingClientRect_top h \<le> boundingClientRect_top e" by blast
    ultimately show False by simp
  qed
  with v have "spy entries navLinks = setActive (target_id e) navLinks" by (simp add: spy_def)
  then show ?thesis by (simp add: setActive_facts)
qed

lemma spy_two_entries:
  "two_entries ! 1 \<in> set two_entries \<and> isIntersecting (two_entries ! 1)
   \<and> spy two_entries two_links = setActive ''setup'' two_links
   \<and> map link_classList (spy two_entries two_links) = [[], [''active'']]"
proof -
  have h: "two_entries ! 1 \<in> set two_entries" "isIntersecting (two_entries ! 1)"
    "\<forall>e' \<in> set two_entries. isIntersecting e' \<and> target_id e' \<noteq> target_id (two_entries ! 1) \<longrightarrow>
          boundingClientRect_top (two_entries ! 1) < boundingClientRect_top e'"
    by (simp_all add: two_entries_def)
  have t: "target_id (two_entries ! Suc 0) = ''setup''" by (simp add: two_entries_def)
  from spy_marks_topmost_of_notification [OF h, of two_links]
  have s: "spy two_entries two_links = setActive ''setup'' two_links" by (simp add: t)
  then have "map link_classList (spy two_entries two_links) = [[], [''active'']]"
    by (simp add: setActive_def two_links_def classList_toggle_def classList_add_def
        classList_remove_def)
  with h s show ?thesis by simp
qed

text \<open>
  The order is that of the signed tops: a section that begins above the viewport comes
  before one that begins just below its top edge.
\<close>

lemma spy_orders_by_signed_top:
  "spy [\<lparr>isIntersecting = True, boundingClientRect_top = 10, target_id = ''setup''\<rparr>,
        \<lparr>isIntersecting = True, boundingClientRect_top = - 500, target_id = ''intro''\<rparr>]
     navLinks = setActive ''intro'' navLinks"
  by (simp add: spy_def visible_entries_def)

text \<open>The first notification reports every observed section.\<close>

lemma notification_first: "notification Map.empty obs = map entry_of obs"
  by (simp add: notification_def)

text \<open>
  C2. Of the sections that intersect at the same time, the one of smallest top is to have
  its link active, and no other. The callback chooses among the entries it is called
  with and keeps no record of earlier notifications, while the observer reports a section
  only when its state changes. With \<open>intro\<close> reported intersecting earlier and still
  intersecting (top 200) and \<open>setup\<close>, below it, intersecting now (top 350), the
  notification carries the entry of \<open>setup\<close> alone: the callback makes the link of
  \<open>setup\<close> active and the link of \<open>intro\<close> inactive, although \<open>intro\<close> is the topmost
  of the two intersecting sections.
\<close>

theorem spy_skips_section_reported_earlier:
  "notification reported_before sections_now
     = [\<lparr>isIntersecting = True, boundingClientRect_top = 350, target_id = ''setup''\<rparr>]
   \<and> section_id (sections_now ! 0) = ''intro'' \<and> intersecting (sections_now ! 0)
   \<and> section_id (sections_now ! 1) = ''setup'' \<and> intersecting (sections_now ! 1)
   \<and> 0 \<le> rect_top (sections_now ! 0)
   \<and> rect_top (sections_now ! 0) < rect_top (sections_now ! 1)
   \<and> spy (notification reported_before sections_now) two_links = setActive ''setup'' two_links
   \<and> map (\<lambda>a. (href a, classList_contains ''active'' (link_classList a)))
         (spy (notification reported_before sections_now) two_links)
       = [(''#intro'', False), (''#setup'', True)]"
proof -
  have n: "notification reported_before sections_now
     = [\<lparr>isIntersecting = True, boundingClientRect_top = 350, target_id = ''setup''\<rparr>]"
    by (simp add: notification_def reported_before_def sections_now_def entry_of_def)
  have s: "spy (notification reported_before sections_now) two_links = setActive ''setup'' two_links"
    by (simp add: n spy_def visible_entries_def)
  have a: "map (\<lambda>a. (href a, classList_contains ''active'' (link_classList a)))
         (setActive ''setup'' two_links) = [(''#intro'', False), (''#setup'', True)]"
    by (simp add: setActive_def two_links_def)
  have g: "section_id (sections_now ! 0) = ''intro'' \<and> intersecting (sections_now ! 0)
   \<and> section_id (sections_now ! 1) = ''setup'' \<and> intersecting (sections_now ! 1)
   \<and> 0 \<le> rect_top (sections_now ! 0)
   \<and> rect_top (sections_now ! 0) < rect_top (sections_now ! 1)"
    by (simp add: sections_now_def)
  from a s have "map (\<lambda>a. (href a, classList_contains ''active'' (link_classList a)))
         (spy (notification reported_before sections_now) two_links)
       = [(''#intro'', False), (''#setup'', True)]" by simp
  with n s g show ?thesis by blast
qed

end
